theory Spec2Isabelle
  imports Complex_Main
begin

section \<open>Simple Invoice Generator: a shallow embedding of invoice.py\<close>

text \<open>
  The program is a Tkinter form around one layout routine, \<open>generate_pdf\<close>, which issues
  drawing calls on a ReportLab canvas. The embedding records the canvas calls as a list of
  commands in the order the code issues them, and the widgets of the form as a record.

  Conventions of the model:
  \<^item> Python floats are modelled as exact reals: no rounding error, no infinities, no NaN and
    no negative zero.
  \<^item> A Python string is a \<open>string\<close>; each \<open>char\<close> stands for one code point.
  \<^item> A dictionary read only through \<open>.get(key, default)\<close> is a record of optional fields,
    \<open>None\<close> meaning that the key is absent.
  \<^item> The built-in conversion \<open>float(s)\<close> of a string is a parameter
    \<open>to_float :: string \<Rightarrow> real option\<close>, \<open>None\<close> meaning that it raises.
  \<^item> The text produced by \<open>str(x)\<close> of a float \<open>x\<close> is kept symbolic (\<open>FloatStr x\<close>).
\<close>

subsection \<open>Configuration\<close>

definition CURRENCY :: string where
  "CURRENCY = ''USD''"

definition DEFAULT_FILENAME_PREFIX :: string where
  "DEFAULT_FILENAME_PREFIX = ''invoice''"

text \<open>
  \<open>reportlab.lib.units.mm\<close>: one millimetre in points (\<open>inch = 72.0\<close>, \<open>cm = inch / 2.54\<close>,
  \<open>mm = cm * 0.1\<close>), and \<open>reportlab.lib.pagesizes.A4 = (210 * mm, 297 * mm)\<close>.
\<close>

definition mm :: real where
  "mm = 72 / 2.54 * 0.1"

definition PAGE_WIDTH :: real where
  "PAGE_WIDTH = 210 * mm"

definition PAGE_HEIGHT :: real where
  "PAGE_HEIGHT = 297 * mm"

subsection \<open>Number formatting\<close>

text \<open>
  The format specification \<open>,.2f\<close>: sign, integer part in groups of three digits separated by
  commas, a point, two decimals. The value is rounded to the nearest hundredth, a tie going
  to the even neighbour.
\<close>

definition digit :: "nat \<Rightarrow> char" where
  "digit d = ''0123456789'' ! (d mod 10)"

definition pad2 :: "nat \<Rightarrow> string" where
  "pad2 n = [digit (n div 10), digit n]"

definition pad3 :: "nat \<Rightarrow> string" where
  "pad3 n = [digit (n div 100), digit (n div 10), digit n]"

fun group3 :: "nat \<Rightarrow> string" where
  "group3 n =
     (if n < 10 then [digit n]
      else if n < 100 then pad2 n
      else if n < 1000 then pad3 n
      else group3 (n div 1000) @ '','' @ pad3 (n mod 1000))"

declare group3.simps [simp del]

definition round_half_even :: "real \<Rightarrow> int" where
  "round_half_even x =
     (let f = \<lfloor>x\<rfloor>; r = x - of_int f
      in if r < 1 / 2 then f
         else if 1 / 2 < r then f + 1
         else if even f then f else f + 1)"

definition cents :: "real \<Rightarrow> nat" where
  "cents v = nat (round_half_even (\<bar>v\<bar> * 100))"

definition fmt2 :: "real \<Rightarrow> string" where
  "fmt2 v =
     (if v < 0 then ''-'' else '''') @ group3 (cents v div 100) @ ''.'' @ pad2 (cents v mod 100)"

subsection \<open>Utility functions\<close>

datatype pyval = PyNone | Num real | Str string

text \<open>\<open>float(v)\<close>: a number converts, a string is parsed, \<open>None\<close> raises.\<close>

fun float_of :: "(string \<Rightarrow> real option) \<Rightarrow> pyval \<Rightarrow> real option" where
  "float_of to_float PyNone = None"
| "float_of to_float (Num r) = Some r"
| "float_of to_float (Str s) = to_float s"

definition money :: "(string \<Rightarrow> real option) \<Rightarrow> pyval \<Rightarrow> string" where
  "money to_float v =
     (let v' = (case float_of to_float v of Some r \<Rightarrow> r | None \<Rightarrow> 0)
      in fmt2 v' @ '' '' @ CURRENCY)"

fun get_or :: "'a \<Rightarrow> 'a option \<Rightarrow> 'a" where
  "get_or d None = d"
| "get_or d (Some v) = v"

subsection \<open>Canvas commands\<close>

datatype piece = Lit string | FloatStr real

datatype cmd =
    SetFont string nat
  | DrawString real real "piece list"
  | DrawRightString real real "piece list"
  | DrawImage string real real real real
  | ShowPage
  | Save string

subsection \<open>Invoice data\<close>

record item =
  desc :: "string option"
  qty :: "real option"
  unit_price :: "real option"

record company_info =
  name :: "string option"
  address_lines :: "string list option"
  notes_text :: "string option"

record invoice_meta =
  date :: "string option"
  invoice_no :: "string option"

text \<open>What is found at a path: nothing (\<open>None\<close>), a file that does not decode, or an image
  with its pixel size.\<close>

datatype path_content = NotAnImage | Image int int

subsection \<open>PDF generation: geometry\<close>

definition left_margin :: real where
  "left_margin = 20 * mm"

definition right_margin :: real where
  "right_margin = PAGE_WIDTH - 20 * mm"

definition top :: real where
  "top = PAGE_HEIGHT - 20 * mm"

definition logo_width_mm :: real where
  "logo_width_mm = 40 * mm"

definition logo_height_mm :: real where
  "logo_height_mm = 25 * mm"

definition table_top :: real where
  "table_top = top - 55 * mm"

definition max_chars :: nat where
  "max_chars = 50"

subsection \<open>PDF generation: logo\<close>

text \<open>
  The target box of the logo: \<open>None\<close> when \<open>img_h / img_w\<close> raises ZeroDivisionError.
\<close>

definition logo_box :: "int \<Rightarrow> int \<Rightarrow> (real \<times> real) option" where
  "logo_box img_w img_h =
     (if img_w = 0 then None
      else
        let aspect = real_of_int img_h / real_of_int img_w;
            target_w = logo_width_mm;
            target_h = logo_width_mm * aspect
        in if target_h > logo_height_mm
           then Some (logo_height_mm / aspect, logo_height_mm)
           else Some (target_w, target_h))"

text \<open>The logo step returns the canvas commands and the lines printed on standard output.\<close>

definition draw_logo :: "(string \<Rightarrow> path_content option) \<Rightarrow> string option \<Rightarrow> cmd list \<times> string list" where
  "draw_logo fs logo_path =
     (case logo_path of
        None \<Rightarrow> ([], [])
      | Some p \<Rightarrow>
          if p = [] then ([], [])
          else
            (case fs p of
               None \<Rightarrow> ([], [])
             | Some NotAnImage \<Rightarrow> ([], [''Logo load error:''])
             | Some (Image img_w img_h) \<Rightarrow>
                 (case logo_box img_w img_h of
                    None \<Rightarrow> ([], [''Logo load error:''])
                  | Some (target_w, target_h) \<Rightarrow>
                      ([DrawImage p left_margin (top - target_h - 5 * mm) target_w target_h], []))))"

subsection \<open>PDF generation: header\<close>

fun draw_address :: "real \<Rightarrow> real \<Rightarrow> string list \<Rightarrow> cmd list" where
  "draw_address text_x text_y [] = []"
| "draw_address text_x text_y (line # rest) =
     DrawString text_x text_y [Lit line] # draw_address text_x (text_y - 11) rest"

definition draw_company :: "company_info \<Rightarrow> cmd list" where
  "draw_company ci =
     (let text_x = left_margin + logo_width_mm + 5 * mm;
          text_y = top - 5 * mm
      in [SetFont ''Helvetica-Bold'' 14,
          DrawString text_x text_y [Lit (get_or [] (name ci))],
          SetFont ''Helvetica'' 10]
         @ draw_address text_x (text_y - 12) (get_or [] (address_lines ci)))"

definition draw_meta :: "invoice_meta \<Rightarrow> cmd list" where
  "draw_meta m =
     (let meta_x = right_margin - 70 * mm;
          meta_y = top - 5 * mm
      in [SetFont ''Helvetica-Bold'' 12,
          DrawString meta_x meta_y [Lit ''Invoice''],
          SetFont ''Helvetica'' 9,
          DrawString meta_x (meta_y - 14) [Lit (''Date: '' @ get_or ''None'' (date m))],
          DrawString meta_x (meta_y - 14 - 11)
            [Lit (''Invoice #: '' @ get_or ''None'' (invoice_no m))]])"

definition draw_table_header :: "cmd list" where
  "draw_table_header =
     [SetFont ''Helvetica-Bold'' 10,
      DrawString left_margin table_top [Lit ''Description''],
      DrawString (left_margin + 95 * mm) table_top [Lit ''Qty''],
      DrawString (left_margin + 110 * mm) table_top [Lit ''Unit Price''],
      DrawString (left_margin + 140 * mm) table_top [Lit ''Total'']]"

subsection \<open>PDF generation: item rows\<close>

text \<open>\<open>range(start, stop, step)\<close> for a positive step.\<close>

function range_step :: "nat \<Rightarrow> nat \<Rightarrow> nat \<Rightarrow> nat list" where
  "range_step i n k = (if i < n \<and> 0 < k then i # range_step (i + k) n k else [])"
  by pat_completeness auto
termination
  by (relation "measure (\<lambda>(i, n, k). n - i)") auto

declare range_step.simps [simp del]

text \<open>\<open>[desc[i:i+max_chars] for i in range(0, len(desc), max_chars)] if desc else [""]\<close>\<close>

definition wrap :: "string \<Rightarrow> string list" where
  "wrap d =
     (if d \<noteq> [] then map (\<lambda>i. take max_chars (drop i d)) (range_step 0 (length d) max_chars)
      else [[]])"

text \<open>
  The statements after the drawing of one line: the cursor goes down by 11 points, and a
  cursor below the threshold closes the page and restarts at the top offset.
\<close>

definition advance :: "real \<Rightarrow> cmd list \<times> real" where
  "advance y =
     (let y' = y - 11
      in if y' < 40 * mm then ([ShowPage], PAGE_HEIGHT - 40 * mm) else ([], y'))"

definition draw_line :: "nat \<Rightarrow> string \<Rightarrow> real \<Rightarrow> real \<Rightarrow> real \<Rightarrow> real \<Rightarrow> cmd list" where
  "draw_line li line q u line_total y =
     (if li = 0
      then [DrawString left_margin y [Lit line],
            DrawRightString (left_margin + 120 * mm) y [FloatStr q],
            DrawRightString (left_margin + 150 * mm) y [Lit (fmt2 u)],
            DrawRightString right_margin y [Lit (fmt2 line_total)]]
      else [DrawString left_margin y [Lit line]])"

text \<open>The inner loop, \<open>for li, line in enumerate(lines)\<close>, from index \<open>li\<close> on.\<close>

fun draw_lines :: "nat \<Rightarrow> string list \<Rightarrow> real \<Rightarrow> real \<Rightarrow> real \<Rightarrow> real \<Rightarrow> cmd list \<times> real" where
  "draw_lines li [] q u line_total y = ([], y)"
| "draw_lines li (line # rest) q u line_total y =
     (let (brk, y') = advance y;
          (cs, y'') = draw_lines (Suc li) rest q u line_total y'
      in (draw_line li line q u line_total y @ brk @ cs, y''))"

text \<open>The outer loop, \<open>for it in items\<close>, threading the cursor and the running subtotal.\<close>

fun draw_items :: "item list \<Rightarrow> real \<Rightarrow> real \<Rightarrow> cmd list \<times> real \<times> real" where
  "draw_items [] y subtotal = ([], y, subtotal)"
| "draw_items (it # rest) y subtotal =
     (let d = get_or [] (desc it);
          q = get_or 0 (qty it);
          u = get_or 0 (unit_price it);
          line_total = q * u;
          subtotal' = subtotal + line_total;
          (cs, y') = draw_lines 0 (wrap d) q u line_total y;
          (cs', y'', subtotal'') = draw_items rest y' subtotal'
      in (cs @ cs', y'', subtotal''))"

subsection \<open>PDF generation: totals and notes\<close>

definition draw_totals :: "real \<Rightarrow> real \<Rightarrow> real \<Rightarrow> cmd list" where
  "draw_totals y subtotal discount_percent =
     (let discount_amount = subtotal * (discount_percent / 100);
          total_due = subtotal - discount_amount
      in [SetFont ''Helvetica-Bold'' 10,
          DrawRightString (left_margin + 150 * mm) y [Lit ''Subtotal:''],
          DrawRightString right_margin y [Lit (fmt2 subtotal)],
          SetFont ''Helvetica'' 10,
          DrawRightString (left_margin + 150 * mm) (y - 12)
            [Lit ''Discount ('', FloatStr discount_percent, Lit ''%):''],
          DrawRightString right_margin (y - 12) [Lit (''-'' @ fmt2 discount_amount)],
          SetFont ''Helvetica-Bold'' 12,
          DrawRightString (left_margin + 150 * mm) (y - 12 - 12) [Lit ''Total Due:''],
          DrawRightString right_margin (y - 12 - 12) [Lit (fmt2 total_due)]])"

text \<open>\<open>s.split('\n')\<close>\<close>

fun split_nl :: "string \<Rightarrow> string list" where
  "split_nl [] = [[]]"
| "split_nl (c # cs) =
     (if c = CHR 0x0A then [] # split_nl cs
      else (case split_nl cs of [] \<Rightarrow> [[c]] | w # ws \<Rightarrow> (c # w) # ws))"

fun draw_note_lines :: "real \<Rightarrow> string list \<Rightarrow> cmd list" where
  "draw_note_lines y [] = []"
| "draw_note_lines y (line # rest) =
     DrawString left_margin y [Lit line] # draw_note_lines (y - 10) rest"

definition draw_notes :: "real \<Rightarrow> company_info \<Rightarrow> cmd list" where
  "draw_notes y ci =
     (let ns = get_or [] (notes_text ci)
      in SetFont ''Helvetica'' 9 #
         (if ns \<noteq> []
          then [DrawString left_margin y [Lit ''Notes:''], SetFont ''Helvetica'' 8]
               @ draw_note_lines (y - 12) (split_nl ns)
          else []))"

subsection \<open>PDF generation\<close>

text \<open>
  \<open>generate_pdf\<close> returns the commands issued on the canvas, in order, and the lines printed
  on standard output. The file system is the extra argument \<open>fs\<close>.
\<close>

definition item_rows :: "item list \<Rightarrow> cmd list \<times> real \<times> real" where
  "item_rows its = draw_items its (table_top - 10) 0"

definition generate_pdf ::
  "(string \<Rightarrow> path_content option) \<Rightarrow> string \<Rightarrow> company_info \<Rightarrow> string option \<Rightarrow> item list \<Rightarrow> real \<Rightarrow>
   invoice_meta \<Rightarrow> cmd list \<times> string list" where
  "generate_pdf fs output_path ci logo_path its discount_percent meta =
     (let (logo, out) = draw_logo fs logo_path;
          (rows, y, subtotal) = item_rows its
      in (logo
          @ draw_company ci
          @ draw_meta meta
          @ draw_table_header
          @ [SetFont ''Helvetica'' 9]
          @ rows
          @ draw_totals (y - 8) subtotal discount_percent
          @ draw_notes (y - 8 - 12 - 12 - 25) ci
          @ [ShowPage, Save output_path],
          out))"

definition pages :: "cmd list \<Rightarrow> nat" where
  "pages cs = length (filter (\<lambda>c. c = ShowPage) cs)"

subsection \<open>The form\<close>

text \<open>
  What the program takes from outside: the built-in \<open>float\<close> on strings, the file system, the
  two readings of the clock as formatted by \<open>strftime\<close>, the answer of the save dialog (the
  empty string when the user cancels) and whether writing the document succeeds.
\<close>

record env =
  float_conv :: "string \<Rightarrow> real option"
  files :: "string \<Rightarrow> path_content option"
  clock_stamp :: string
  clock_date :: string
  save_dialog :: "string \<Rightarrow> string"
  render_ok :: bool

datatype effect =
    ShowWarning string string
  | ShowInfo string string
  | ShowError string
  | Print string
  | Render "cmd list"

record app =
  items :: "item list"
  logo_path :: "string option"
  company_name_var :: string
  company_addr_var :: string
  desc_entry :: string
  qty_entry :: string
  unit_entry :: string
  discount_var :: string
  subtotal_lbl :: string
  total_lbl :: string

text \<open>\<open>str.isspace\<close> on the ASCII range, and \<open>str.strip()\<close>.\<close>

definition isspace :: "char \<Rightarrow> bool" where
  "isspace c = (let n = (of_char c :: nat) in (9 \<le> n \<and> n \<le> 13) \<or> (28 \<le> n \<and> n \<le> 32))"

definition strip :: "string \<Rightarrow> string" where
  "strip s = rev (dropWhile isspace (rev (dropWhile isspace s)))"

text \<open>The \<open>try: float(...) except Exception: 0\<close> of the form's numeric fields.\<close>

definition parse_or_zero :: "env \<Rightarrow> string \<Rightarrow> real" where
  "parse_or_zero e s = (case float_conv e s of Some v \<Rightarrow> v | None \<Rightarrow> 0)"

definition ui_subtotal :: "item list \<Rightarrow> real" where
  "ui_subtotal its = foldl (\<lambda>subtotal it. subtotal + get_or 0 (qty it) * get_or 0 (unit_price it)) 0 its"

definition update_totals :: "env \<Rightarrow> app \<Rightarrow> app" where
  "update_totals e a =
     (let subtotal = ui_subtotal (items a);
          disc = parse_or_zero e (discount_var a);
          disc = max 0 disc;
          discount_amount = subtotal * (disc / 100);
          total_due = subtotal - discount_amount
      in a\<lparr>subtotal_lbl := money (float_conv e) (Num subtotal),
            total_lbl := money (float_conv e) (Num total_due)\<rparr>)"


definition generate_invoice_pdf :: "env \<Rightarrow> app \<Rightarrow> app \<times> effect list" where
  "generate_invoice_pdf e a =
     (if items a = []
      then (a, [ShowWarning ''No items'' ''Add at least one item before generating invoice''])
      else
        let company =
              \<lparr>name = Some (company_name_var a),
               address_lines =
                 Some (filter (\<lambda>l. l \<noteq> []) (map strip (split_nl (company_addr_var a)))),
               notes_text = Some ''Thank you for your business!''\<rparr>;
            discount_percent = parse_or_zero e (discount_var a);
            inv_no = clock_stamp e;
            meta = \<lparr>date = Some (clock_date e), invoice_no = Some inv_no\<rparr>;
            default_name = DEFAULT_FILENAME_PREFIX @ ''_'' @ inv_no @ ''.pdf'';
            save_path = save_dialog e default_name
        in if save_path = [] then (a, [])
           else
             let (cs, out) = generate_pdf (files e) save_path company (logo_path a) (items a)
                               discount_percent meta
             in if render_ok e
                then (a, map Print out
                         @ [Render cs, ShowInfo ''Saved'' (''Invoice saved to: '' @ save_path)])
                else (a, map Print out @ [ShowError ''Error'']))"

subsection \<open>Quantities used in the statements\<close>

text \<open>The line total of an item, and the number of lines its description wraps into.\<close>

definition item_total :: "item \<Rightarrow> real" where
  "item_total it = get_or 0 (qty it) * get_or 0 (unit_price it)"

definition item_lines :: "item \<Rightarrow> nat" where
  "item_lines it = length (wrap (get_or [] (desc it)))"

text \<open>The vertical position of a text command.\<close>

fun text_y :: "cmd \<Rightarrow> real option" where
  "text_y (DrawString x y t) = Some y"
| "text_y (DrawRightString x y t) = Some y"
| "text_y c = None"



fun is_image :: "cmd \<Rightarrow> bool" where
  "is_image (DrawImage p x y w h) = True"
| "is_image c = False"

definition above_threshold :: "cmd \<Rightarrow> bool" where
  "above_threshold c = (case text_y c of None \<Rightarrow> True | Some y \<Rightarrow> 40 * mm \<le> y)"

section \<open>Properties\<close>

subsection \<open>Subtotals and totals\<close>


lemma draw_items_subtotal:
  "snd (snd (draw_items its y s)) = s + sum_list (map item_total its)"
proof (induction its arbitrary: y s)
  case Nil
  show ?case by simp
next
  case (Cons a its)
  obtain cs y' where l: "draw_lines 0 (wrap (get_or [] (desc a))) (get_or 0 (qty a))
      (get_or 0 (unit_price a)) (get_or 0 (qty a) * get_or 0 (unit_price a)) y = (cs, y')"
    by (cases "draw_lines 0 (wrap (get_or [] (desc a))) (get_or 0 (qty a))
      (get_or 0 (unit_price a)) (get_or 0 (qty a) * get_or 0 (unit_price a)) y") auto
  have "snd (snd (draw_items (a # its) y s))
          = snd (snd (draw_items its y' (s + item_total a)))"
    by (simp add: l Let_def item_total_def split: prod.splits)
  then show ?case by (simp add: Cons.IH)
qed

lemma foldl_subtotal:
  "foldl (\<lambda>subtotal it. subtotal + get_or 0 (qty it) * get_or 0 (unit_price it)) s its
     = s + sum_list (map item_total its)"
  by (induction its arbitrary: s) (auto simp: item_total_def)

lemma ui_subtotal_sum: "ui_subtotal its = sum_list (map item_total its)"
  by (simp add: ui_subtotal_def foldl_subtotal)

lemma item_rows_subtotal: "snd (snd (item_rows its)) = sum_list (map item_total its)"
  by (simp add: item_rows_def draw_items_subtotal)

lemma money_Num: "money f (Num r) = fmt2 r @ '' '' @ CURRENCY"
  by (simp add: money_def)

text \<open>
  Claim C10. For every item list the subtotal of the totals routine of the form and the
  subtotal accumulated by the PDF generation are the same number, the sum over the items of
  quantity times unit price; the subtotal label of the form shows the amount that the PDF
  prints, followed by the currency.
\<close>

theorem subtotal_ui_matches_pdf:
  "ui_subtotal its = snd (snd (item_rows its))
   \<and> ui_subtotal its = sum_list (map item_total its)
   \<and> subtotal_lbl (update_totals e (a\<lparr>items := its\<rparr>)) = fmt2 (snd (snd (item_rows its))) @ '' '' @ CURRENCY"
  by (simp add: ui_subtotal_sum item_rows_subtotal update_totals_def Let_def money_Num)

lemma generate_pdf_totals:
  "\<exists>pre post. fst (generate_pdf fs out ci lp its D meta) =
     pre @ draw_totals (fst (snd (item_rows its)) - 8) (sum_list (map item_total its)) D @ post"
proof -
  obtain rows y s where r: "item_rows its = (rows, y, s)" by (cases "item_rows its") auto
  have s: "s = sum_list (map item_total its)" using item_rows_subtotal[of its] r by simp
  obtain logo pr where l: "draw_logo fs lp = (logo, pr)" by (cases "draw_logo fs lp") auto
  show ?thesis
    unfolding generate_pdf_def r l using s
    apply simp
    apply (rule exI[of _ "logo @ draw_company ci @ draw_meta meta @ draw_table_header @ [SetFont ''Helvetica'' 9] @ rows"])
    apply (rule exI[of _ "draw_notes (y - 8 - 12 - 12 - 25) ci @ [ShowPage, Save out]"])
    apply simp
    done
qed

lemma mm_pos: "0 < mm"
  by (simp add: mm_def)






subsection \<open>Description wrapping\<close>

lemma ceil_div_step:
  fixes k m :: nat
  assumes "0 < k" and "0 < m"
  shows "(m + k - 1) div k = Suc ((m - 1) div k)"
proof -
  have "m + k - 1 = (m - 1) + k" using assms by simp
  then have "(m + k - 1) div k = ((m - 1) + k) div k" by simp
  also have "\<dots> = Suc ((m - 1) div k)" using assms(1) by simp
  finally show ?thesis .
qed

lemma range_step_length:
  "0 < k \<Longrightarrow> length (range_step i n k) = (n - i + k - 1) div k"
proof (induction i n k rule: range_step.induct)
  case (1 i n k)
  show ?case
  proof (cases "i < n")
    case True
    then have unf: "range_step i n k = i # range_step (i + k) n k"
      using "1.prems" by (subst range_step.simps) simp
    have ih: "length (range_step (i + k) n k) = (n - (i + k) + k - 1) div k"
      using "1.IH" True "1.prems" by simp
    have lhs: "(n - i + k - 1) div k = Suc ((n - i - 1) div k)"
      using ceil_div_step [of k "n - i"] True "1.prems" by simp
    have rhs: "(n - (i + k) + k - 1) div k = (n - i - 1) div k"
    proof (cases "k \<le> n - i")
      case True
      then have "n - (i + k) + k - 1 = n - i - 1" by simp
      then show ?thesis by simp
    next
      case False
      then have "n - (i + k) + k - 1 = k - 1" by simp
      moreover have "(k - 1) div k = 0" using "1.prems" by simp
      moreover have "(n - i - 1) div k = 0" using False by simp
      ultimately show ?thesis by simp
    qed
    show ?thesis using unf ih lhs rhs by simp
  next
    case False
    then have "range_step i n k = []" by (subst range_step.simps) simp
    moreover have "(n - i + k - 1) div k = 0" using False "1.prems" by simp
    ultimately show ?thesis by simp
  qed
qed



lemma wrap_length:
  "d \<noteq> [] \<Longrightarrow> length (wrap d) = (length d + max_chars - 1) div max_chars"
  by (simp add: wrap_def range_step_length max_chars_def)


lemma wrap_not_Nil: "wrap d \<noteq> []"
proof (cases "d = []")
  case True
  then show ?thesis by (simp add: wrap_def)
next
  case False
  then have "0 < length d" by simp
  then have "(length d + max_chars - 1) div max_chars = Suc ((length d - 1) div max_chars)"
    using ceil_div_step [of max_chars "length d"] by (simp add: max_chars_def)
  then show ?thesis using wrap_length [OF False] by auto
qed







subsection \<open>Logo box\<close>

text \<open>
  Claim C6. For an image of width \<open>W > 0\<close> and height \<open>H > 0\<close> the box drawn keeps the ratio
  \<open>W / H\<close>, is at most 40 mm wide and 25 mm high, and the dimension that would overflow is
  the one that is scaled down: when the height at full width exceeds 25 mm the height is
  25 mm and the width is below 40 mm, otherwise the width is 40 mm.
\<close>

theorem logo_box_fits:
  assumes "0 < W" and "0 < H" and "p \<noteq> []" and "fs p = Some (Image W H)"
  shows "\<exists>w h. logo_box W H = Some (w, h)
           \<and> 0 < w \<and> 0 < h
           \<and> w / h = real_of_int W / real_of_int H
           \<and> w \<le> 40 * mm \<and> h \<le> 25 * mm
           \<and> (if 40 * mm * (real_of_int H / real_of_int W) > 25 * mm
              then h = 25 * mm \<and> w < 40 * mm else w = 40 * mm)
           \<and> draw_logo fs (Some p) =
               ([DrawImage p left_margin (top - h - 5 * mm) w h], [])"
proof -
  define aspect where "aspect = real_of_int H / real_of_int W"
  have ap: "0 < aspect" using assms(1,2) by (simp add: aspect_def)
  have inv: "1 / aspect = real_of_int W / real_of_int H" by (simp add: aspect_def)
  show ?thesis
  proof (cases "40 * mm * aspect > 25 * mm")
    case True
    define w where "w = 25 * mm / aspect"
    define h where "h = 25 * mm"
    have nz: "W \<noteq> 0" using assms(1) by simp
    have cond: "logo_width_mm * (real_of_int H / real_of_int W) > logo_height_mm"
      using True by (simp only: logo_width_mm_def logo_height_mm_def aspect_def)
    have "logo_box W H =
            Some (logo_height_mm / (real_of_int H / real_of_int W), logo_height_mm)"
      by (simp only: logo_box_def Let_def nz cond if_False if_True)
    then have lb: "logo_box W H = Some (w, h)"
      by (simp only: w_def h_def aspect_def logo_height_mm_def)
    have r: "w / h = real_of_int W / real_of_int H"
      using mm_pos inv by (simp add: w_def h_def)
    have lt: "w < 40 * mm"
      unfolding w_def using True ap by (simp add: pos_divide_less_eq mult.commute)
    have pos: "0 < w" "0 < h" using ap mm_pos by (simp_all add: w_def h_def)
    have c: "(if 40 * mm * (real_of_int H / real_of_int W) > 25 * mm
              then h = 25 * mm \<and> w < 40 * mm else w = 40 * mm)"
      using True lt unfolding aspect_def h_def by (simp only: if_True simp_thms)
    have d: "draw_logo fs (Some p) = ([DrawImage p left_margin (top - h - 5 * mm) w h], [])"
      using lb assms(3,4) by (simp add: draw_logo_def)
    have e: "w \<le> 40 * mm" "h \<le> 25 * mm" using lt by (simp_all add: h_def)
    from lb pos r e c d show ?thesis by blast
  next
    case False
    define w where "w = 40 * mm"
    define h where "h = 40 * mm * aspect"
    have nz: "W \<noteq> 0" using assms(1) by simp
    have cond: "\<not> logo_width_mm * (real_of_int H / real_of_int W) > logo_height_mm"
      using False by (simp only: logo_width_mm_def logo_height_mm_def aspect_def simp_thms)
    have "logo_box W H =
            Some (logo_width_mm, logo_width_mm * (real_of_int H / real_of_int W))"
      by (simp only: logo_box_def Let_def nz cond if_False if_True)
    then have lb: "logo_box W H = Some (w, h)"
      by (simp only: w_def h_def aspect_def logo_width_mm_def)
    have r: "w / h = real_of_int W / real_of_int H"
      using mm_pos inv by (simp add: w_def h_def)
    have pos: "0 < w" "0 < h" using ap mm_pos by (simp_all add: w_def h_def)
    have c: "(if 40 * mm * (real_of_int H / real_of_int W) > 25 * mm
              then h = 25 * mm \<and> w < 40 * mm else w = 40 * mm)"
      using False unfolding aspect_def w_def by (simp only: if_False simp_thms)
    have d: "draw_logo fs (Some p) = ([DrawImage p left_margin (top - h - 5 * mm) w h], [])"
      using lb assms(3,4) by (simp add: draw_logo_def)
    have e: "w \<le> 40 * mm" "h \<le> 25 * mm" using False by (simp_all add: w_def h_def)
    from lb pos r e c d show ?thesis by blast
  qed
qed

text \<open>A portrait image of 300 by 600 pixels is drawn 25 mm high and half as wide.\<close>

theorem logo_box_fits_witness:
  "(0::int) < 300 \<and> (0::int) < 600 \<and> ''logo.png'' \<noteq> []
   \<and> (\<exists>w h. logo_box 300 600 = Some (w, h)
         \<and> w / h = 1 / 2 \<and> w < 40 * mm \<and> h = 25 * mm
         \<and> draw_logo (\<lambda>p. if p = ''logo.png'' then Some (Image 300 600) else None)
              (Some ''logo.png'') =
             ([DrawImage ''logo.png'' left_margin (top - h - 5 * mm) w h], []))"
  using logo_box_fits [of 300 600 "''logo.png''"
      "\<lambda>p. if p = ''logo.png'' then Some (Image 300 600) else None"] mm_pos
  by (simp; blast)


subsection \<open>Logo failures\<close>

lemma draw_address_image: "filter is_image (draw_address x y ls) = []"
  by (induction ls arbitrary: y) simp_all

lemma draw_note_lines_image: "filter is_image (draw_note_lines y ls) = []"
  by (induction ls arbitrary: y) simp_all

lemma advance_image: "filter is_image (fst (advance y)) = []"
  by (simp add: advance_def Let_def)

lemma draw_lines_image: "filter is_image (fst (draw_lines li ls q u t y)) = []"
proof (induction ls arbitrary: li y)
  case Nil
  show ?case by simp
next
  case (Cons l ls)
  obtain brk y' where a: "advance y = (brk, y')" by (cases "advance y") auto
  obtain cs y'' where r: "draw_lines (Suc li) ls q u t y' = (cs, y'')"
    by (cases "draw_lines (Suc li) ls q u t y'") auto
  have "filter is_image cs = []" using Cons.IH [of "Suc li" y'] r by simp
  moreover have "filter is_image brk = []" using advance_image [of y] a by simp
  ultimately show ?case by (simp add: a r draw_line_def)
qed

lemma draw_items_image: "filter is_image (fst (draw_items its y s)) = []"
proof (induction its arbitrary: y s)
  case Nil
  show ?case by simp
next
  case (Cons a its)
  obtain cs y' where l: "draw_lines 0 (wrap (get_or [] (desc a))) (get_or 0 (qty a))
      (get_or 0 (unit_price a)) (get_or 0 (qty a) * get_or 0 (unit_price a)) y = (cs, y')"
    by (cases "draw_lines 0 (wrap (get_or [] (desc a))) (get_or 0 (qty a))
      (get_or 0 (unit_price a)) (get_or 0 (qty a) * get_or 0 (unit_price a)) y") auto
  obtain cs' y'' s'' where r:
    "draw_items its y' (s + get_or 0 (qty a) * get_or 0 (unit_price a)) = (cs', y'', s'')"
    by (cases "draw_items its y' (s + get_or 0 (qty a) * get_or 0 (unit_price a))") auto
  have 1: "filter is_image cs = []"
    using draw_lines_image [of 0 "wrap (get_or [] (desc a))" "get_or 0 (qty a)"
        "get_or 0 (unit_price a)" "get_or 0 (qty a) * get_or 0 (unit_price a)" y] l by simp
  have 2: "filter is_image cs' = []"
    using Cons.IH [of y' "s + get_or 0 (qty a) * get_or 0 (unit_price a)"] r by simp
  show ?case by (simp add: l r Let_def 1 2)
qed

lemma generate_pdf_no_logo:
  assumes "draw_logo fs lp = ([], out')"
  shows "fst (generate_pdf fs out ci lp its D meta) = fst (generate_pdf fs out ci None its D meta)"
    and "filter is_image (fst (generate_pdf fs out ci lp its D meta)) = []"
    and "\<exists>cs. fst (generate_pdf fs out ci lp its D meta) = cs @ [ShowPage, Save out]"
proof -
  obtain rows y s where r: "item_rows its = (rows, y, s)" by (cases "item_rows its") auto
  have n: "draw_logo fs None = ([], [])" by (simp add: draw_logo_def)
  show "fst (generate_pdf fs out ci lp its D meta) = fst (generate_pdf fs out ci None its D meta)"
    by (simp add: generate_pdf_def assms n r)
  have "filter is_image rows = []"
    using draw_items_image [of its "table_top - 10" 0] r by (simp add: item_rows_def)
  then show "filter is_image (fst (generate_pdf fs out ci lp its D meta)) = []"
    by (simp add: generate_pdf_def assms r draw_company_def draw_meta_def draw_table_header_def
        draw_totals_def draw_notes_def draw_address_image draw_note_lines_image Let_def)
  show "\<exists>cs. fst (generate_pdf fs out ci lp its D meta) = cs @ [ShowPage, Save out]"
    apply (rule exI [of _ "draw_company ci @ draw_meta meta @ draw_table_header
        @ [SetFont ''Helvetica'' 9] @ rows @ draw_totals (y - 8) s D
        @ draw_notes (y - 8 - 12 - 12 - 25) ci"])
    apply (simp add: generate_pdf_def assms r)
    done
qed

text \<open>
  Claim C7. When the logo path is absent or empty, or names no file, or names a file that
  does not decode, no image is drawn, the layout runs to its end (the last page is shown and
  the document saved), and the canvas commands are those of an invoice without a logo.
\<close>

theorem logo_failure_not_fatal:
  assumes "lp = None \<or> (\<exists>p. lp = Some p \<and> (p = [] \<or> fs p = None \<or> fs p = Some NotAnImage))"
  shows "fst (generate_pdf fs out ci lp its D meta) = fst (generate_pdf fs out ci None its D meta)
         \<and> filter is_image (fst (generate_pdf fs out ci lp its D meta)) = []
         \<and> (\<exists>cs. fst (generate_pdf fs out ci lp its D meta) = cs @ [ShowPage, Save out])"
proof -
  from assms have "\<exists>out'. draw_logo fs lp = ([], out')"
    by (auto simp: draw_logo_def)
  then obtain out' where "draw_logo fs lp = ([], out')" ..
  from generate_pdf_no_logo [OF this] show ?thesis by blast
qed

text \<open>A path to a file that is not an image, and a path to a file that does not exist.\<close>

theorem logo_failure_not_fatal_witness:
  "fst (generate_pdf (\<lambda>p. if p = ''notes.txt'' then Some NotAnImage else None) ''invoice.pdf''
          \<lparr>name = Some ''Your Company'', address_lines = Some [], notes_text = Some ''''\<rparr>
          (Some ''notes.txt'')
          [\<lparr>desc = Some ''Consulting'', qty = Some 2, unit_price = Some 100\<rparr>] 10
          \<lparr>date = Some ''2026-01-01'', invoice_no = Some ''1''\<rparr>)
   = fst (generate_pdf (\<lambda>p. if p = ''notes.txt'' then Some NotAnImage else None) ''invoice.pdf''
          \<lparr>name = Some ''Your Company'', address_lines = Some [], notes_text = Some ''''\<rparr>
          None
          [\<lparr>desc = Some ''Consulting'', qty = Some 2, unit_price = Some 100\<rparr>] 10
          \<lparr>date = Some ''2026-01-01'', invoice_no = Some ''1''\<rparr>)
   \<and> fst (generate_pdf (\<lambda>p. None) ''invoice.pdf''
          \<lparr>name = Some ''Your Company'', address_lines = Some [], notes_text = Some ''''\<rparr>
          (Some ''missing.png'')
          [\<lparr>desc = Some ''Consulting'', qty = Some 2, unit_price = Some 100\<rparr>] 10
          \<lparr>date = Some ''2026-01-01'', invoice_no = Some ''1''\<rparr>)
   = fst (generate_pdf (\<lambda>p. None) ''invoice.pdf''
          \<lparr>name = Some ''Your Company'', address_lines = Some [], notes_text = Some ''''\<rparr>
          None
          [\<lparr>desc = Some ''Consulting'', qty = Some 2, unit_price = Some 100\<rparr>] 10
          \<lparr>date = Some ''2026-01-01'', invoice_no = Some ''1''\<rparr>)"
proof -
  have 1: "Some ''notes.txt'' = None \<or> (\<exists>p. Some ''notes.txt'' = Some p \<and> (p = [] \<or>
      (\<lambda>p. if p = ''notes.txt'' then Some NotAnImage else None) p = None \<or>
      (\<lambda>p. if p = ''notes.txt'' then Some NotAnImage else None) p = Some NotAnImage))"
    by simp
  have 2: "Some ''missing.png'' = None \<or> (\<exists>p. Some ''missing.png'' = Some p \<and> (p = [] \<or>
      (\<lambda>p. None :: path_content option) p = None \<or> (\<lambda>p. None) p = Some NotAnImage))"
    by simp
  show ?thesis
    using logo_failure_not_fatal [OF 1] logo_failure_not_fatal [OF 2] by blast
qed

subsection \<open>Generation from the form\<close>

text \<open>
  Claim C8. With no items the request to generate is answered by a warning only: the
  renderer is not invoked, nothing is written, and the state of the form is unchanged.
\<close>

theorem no_items_rejected:
  assumes "items a = []"
  shows "generate_invoice_pdf e a =
           (a, [ShowWarning ''No items'' ''Add at least one item before generating invoice''])
         \<and> fst (generate_invoice_pdf e a) = a
         \<and> (\<forall>cs. Render cs \<notin> set (snd (generate_invoice_pdf e a)))"
  using assms by (simp add: generate_invoice_pdf_def)

text \<open>The form as it starts, with an empty item list.\<close>

theorem no_items_rejected_witness:
  "generate_invoice_pdf
     \<lparr>float_conv = (\<lambda>s. None), files = (\<lambda>p. None), clock_stamp = ''20260101120000'',
      clock_date = ''2026-01-01'', save_dialog = (\<lambda>n. n), render_ok = True\<rparr>
     \<lparr>items = [], logo_path = None, company_name_var = ''Your Company'',
      company_addr_var = ''123 Business St, City'', desc_entry = [], qty_entry = [],
      unit_entry = [], discount_var = ''0'', subtotal_lbl = ''0.00 USD'',
      total_lbl = ''0.00 USD''\<rparr>
   = (\<lparr>items = [], logo_path = None, company_name_var = ''Your Company'',
      company_addr_var = ''123 Business St, City'', desc_entry = [], qty_entry = [],
      unit_entry = [], discount_var = ''0'', subtotal_lbl = ''0.00 USD'',
      total_lbl = ''0.00 USD''\<rparr>,
      [ShowWarning ''No items'' ''Add at least one item before generating invoice''])"
  using no_items_rejected [of
     "\<lparr>items = [], logo_path = None, company_name_var = ''Your Company'',
      company_addr_var = ''123 Business St, City'', desc_entry = [], qty_entry = [],
      unit_entry = [], discount_var = ''0'', subtotal_lbl = ''0.00 USD'',
      total_lbl = ''0.00 USD''\<rparr>"
     "\<lparr>float_conv = (\<lambda>s. None), files = (\<lambda>p. None), clock_stamp = ''20260101120000'',
      clock_date = ''2026-01-01'', save_dialog = (\<lambda>n. n), render_ok = True\<rparr>"]
  by simp


subsection \<open>Malformed numeric input\<close>







subsection \<open>Negative discounts\<close>

lemma generate_invoice_pdf_render:
  assumes "items a \<noteq> []"
    and "save_dialog e (DEFAULT_FILENAME_PREFIX @ ''_'' @ clock_stamp e @ ''.pdf'') = path"
    and "path \<noteq> []" and "render_ok e"
  shows "\<exists>cs out pre post y.
           generate_invoice_pdf e a =
             (a, map Print out @ [Render cs, ShowInfo ''Saved'' (''Invoice saved to: '' @ path)])
           \<and> cs = pre @ draw_totals y (sum_list (map item_total (items a)))
                         (parse_or_zero e (discount_var a)) @ post"
proof -
  let ?ci = "\<lparr>name = Some (company_name_var a),
               address_lines =
                 Some (filter (\<lambda>l. l \<noteq> []) (map strip (split_nl (company_addr_var a)))),
               notes_text = Some ''Thank you for your business!''\<rparr>"
  let ?meta = "\<lparr>date = Some (clock_date e), invoice_no = Some (clock_stamp e)\<rparr>"
  let ?G = "generate_pdf (files e) path ?ci (logo_path a) (items a)
              (parse_or_zero e (discount_var a)) ?meta"
  have g: "generate_invoice_pdf e a =
             (a, map Print (snd ?G)
                 @ [Render (fst ?G), ShowInfo ''Saved'' (''Invoice saved to: '' @ path)])"
    using assms by (simp add: generate_invoice_pdf_def Let_def split: prod.splits)
  from generate_pdf_totals [of "files e" path ?ci "logo_path a" "items a"
      "parse_or_zero e (discount_var a)" ?meta]
  obtain pre post where
    "fst ?G = pre @ draw_totals (fst (snd (item_rows (items a))) - 8)
                      (sum_list (map item_total (items a)))
                      (parse_or_zero e (discount_var a)) @ post"
    by blast
  with g show ?thesis by blast
qed

lemma fmt2_100: "fmt2 100 = ''100.00''"
  by (simp add: fmt2_def cents_def round_half_even_def group3.simps pad2_def pad3_def digit_def)

lemma fmt2_110: "fmt2 110 = ''110.00''"
  by (simp add: fmt2_def cents_def round_half_even_def group3.simps pad2_def pad3_def digit_def)

lemma fmt2_minus_10: "fmt2 (- 10) = ''-10.00''"
  by (simp add: fmt2_def cents_def round_half_even_def group3.simps pad2_def pad3_def digit_def)

text \<open>
  Claim C2. The totals routine of the form clamps the discount at 0, the PDF path does not:
  \<open>generate_invoice_pdf\<close> hands the parsed discount to \<open>generate_pdf\<close> as it is. With one
  item of 100.00 and the discount text \<open>-10\<close>, the form shows a total of 100.00, and the
  document written carries the discount percent -10, the discount amount \<open>--10.00\<close> and a
  total due of 110.00.
\<close>

theorem negative_discount_reaches_pdf:
  "(let e = \<lparr>float_conv = (\<lambda>s. if s = ''-10'' then Some (- 10) else None),
             files = (\<lambda>p. None), clock_stamp = ''20260101120000'',
             clock_date = ''2026-01-01'', save_dialog = (\<lambda>n. n), render_ok = True\<rparr>;
        a = \<lparr>items = [\<lparr>desc = Some ''Consulting'', qty = Some 1, unit_price = Some 100\<rparr>],
             logo_path = None, company_name_var = ''Your Company'',
             company_addr_var = ''123 Business St, City'', desc_entry = [], qty_entry = [],
             unit_entry = [], discount_var = ''-10'', subtotal_lbl = ''0.00 USD'',
             total_lbl = ''0.00 USD''\<rparr>
    in subtotal_lbl (update_totals e a) = ''100.00 USD''
       \<and> total_lbl (update_totals e a) = ''100.00 USD''
       \<and> (\<exists>cs out pre post y.
             snd (generate_invoice_pdf e a) =
               map Print out
               @ [Render cs,
                  ShowInfo ''Saved'' ''Invoice saved to: invoice_20260101120000.pdf'']
             \<and> cs = pre @
                 [SetFont ''Helvetica-Bold'' 10,
                  DrawRightString (left_margin + 150 * mm) y [Lit ''Subtotal:''],
                  DrawRightString right_margin y [Lit ''100.00''],
                  SetFont ''Helvetica'' 10,
                  DrawRightString (left_margin + 150 * mm) (y - 12)
                    [Lit ''Discount ('', FloatStr (- 10), Lit ''%):''],
                  DrawRightString right_margin (y - 12) [Lit ''--10.00''],
                  SetFont ''Helvetica-Bold'' 12,
                  DrawRightString (left_margin + 150 * mm) (y - 12 - 12) [Lit ''Total Due:''],
                  DrawRightString right_margin (y - 12 - 12) [Lit ''110.00'']]
                 @ post))"
proof -
  let ?e = "\<lparr>float_conv = (\<lambda>s. if s = ''-10'' then Some (- 10 :: real) else None),
             files = (\<lambda>p. None), clock_stamp = ''20260101120000'',
             clock_date = ''2026-01-01'', save_dialog = (\<lambda>n. n), render_ok = True\<rparr>"
  let ?a = "\<lparr>items = [\<lparr>desc = Some ''Consulting'', qty = Some 1, unit_price = Some 100\<rparr>],
             logo_path = None, company_name_var = ''Your Company'',
             company_addr_var = ''123 Business St, City'', desc_entry = [], qty_entry = [],
             unit_entry = [], discount_var = ''-10'', subtotal_lbl = ''0.00 USD'',
             total_lbl = ''0.00 USD''\<rparr>"
  have ui: "subtotal_lbl (update_totals ?e ?a) = ''100.00 USD''"
    "total_lbl (update_totals ?e ?a) = ''100.00 USD''"
    by (simp_all add: update_totals_def Let_def parse_or_zero_def money_Num ui_subtotal_def
        fmt2_100 CURRENCY_def)
  have "\<exists>cs out pre post y.
           generate_invoice_pdf ?e ?a =
             (?a, map Print out @ [Render cs, ShowInfo ''Saved''
                (''Invoice saved to: '' @ ''invoice_20260101120000.pdf'')])
           \<and> cs = pre @ draw_totals y (sum_list (map item_total (items ?a)))
                         (parse_or_zero ?e (discount_var ?a)) @ post"
    by (rule generate_invoice_pdf_render) (simp_all add: DEFAULT_FILENAME_PREFIX_def)
  then obtain cs out pre post y where
    g: "generate_invoice_pdf ?e ?a =
             (?a, map Print out @ [Render cs, ShowInfo ''Saved''
                (''Invoice saved to: '' @ ''invoice_20260101120000.pdf'')])"
    and c: "cs = pre @ draw_totals y (sum_list (map item_total (items ?a)))
                         (parse_or_zero ?e (discount_var ?a)) @ post"
    by blast
  have t: "draw_totals y (sum_list (map item_total (items ?a)))
             (parse_or_zero ?e (discount_var ?a)) =
                 [SetFont ''Helvetica-Bold'' 10,
                  DrawRightString (left_margin + 150 * mm) y [Lit ''Subtotal:''],
                  DrawRightString right_margin y [Lit ''100.00''],
                  SetFont ''Helvetica'' 10,
                  DrawRightString (left_margin + 150 * mm) (y - 12)
                    [Lit ''Discount ('', FloatStr (- 10), Lit ''%):''],
                  DrawRightString right_margin (y - 12) [Lit ''--10.00''],
                  SetFont ''Helvetica-Bold'' 12,
                  DrawRightString (left_margin + 150 * mm) (y - 12 - 12) [Lit ''Total Due:''],
                  DrawRightString right_margin (y - 12 - 12) [Lit ''110.00'']]"
    by (simp add: draw_totals_def Let_def item_total_def parse_or_zero_def
        fmt2_100 fmt2_110 fmt2_minus_10)
  have pdf: "\<exists>cs out pre post y.
             snd (generate_invoice_pdf ?e ?a) =
               map Print out
               @ [Render cs,
                  ShowInfo ''Saved'' ''Invoice saved to: invoice_20260101120000.pdf'']
             \<and> cs = pre @
                 [SetFont ''Helvetica-Bold'' 10,
                  DrawRightString (left_margin + 150 * mm) y [Lit ''Subtotal:''],
                  DrawRightString right_margin y [Lit ''100.00''],
                  SetFont ''Helvetica'' 10,
                  DrawRightString (left_margin + 150 * mm) (y - 12)
                    [Lit ''Discount ('', FloatStr (- 10), Lit ''%):''],
                  DrawRightString right_margin (y - 12) [Lit ''--10.00''],
                  SetFont ''Helvetica-Bold'' 12,
                  DrawRightString (left_margin + 150 * mm) (y - 12 - 12) [Lit ''Total Due:''],
                  DrawRightString right_margin (y - 12 - 12) [Lit ''110.00'']]
                 @ post"
    apply (rule exI [of _ cs])
    apply (rule exI [of _ out])
    apply (rule exI [of _ pre])
    apply (rule exI [of _ post])
    apply (rule exI [of _ y])
    apply (rule conjI)
     apply (simp add: g)
    apply (simp only: c t)
    done
  from ui pdf show ?thesis unfolding Let_def by blast
qed

subsection \<open>Pagination\<close>


lemma advance_eq:
  "advance y = (if y - 11 < 40 * mm then ([ShowPage], PAGE_HEIGHT - 40 * mm) else ([], y - 11))"
  by (simp add: advance_def Let_def)

lemma restart_above: "40 * mm \<le> PAGE_HEIGHT - 40 * mm"
  using mm_pos by (simp add: PAGE_HEIGHT_def)

lemma start_above: "40 * mm \<le> table_top - 10"
  by (simp add: table_top_def top_def PAGE_HEIGHT_def mm_def)

lemma advance_above: "40 * mm \<le> snd (advance y)"
  using restart_above by (simp add: advance_eq)

lemma advance_threshold: "list_all above_threshold (fst (advance y))"
  by (simp add: advance_eq above_threshold_def)

lemma draw_line_threshold:
  "40 * mm \<le> y \<Longrightarrow> list_all above_threshold (draw_line li l q u t y)"
  by (simp add: draw_line_def above_threshold_def)

lemma draw_lines_above:
  "40 * mm \<le> y \<Longrightarrow>
     list_all above_threshold (fst (draw_lines li ls q u t y))
     \<and> 40 * mm \<le> snd (draw_lines li ls q u t y)"
proof (induction ls arbitrary: li y)
  case Nil
  then show ?case by simp
next
  case (Cons l ls)
  obtain brk y' where a: "advance y = (brk, y')" by (cases "advance y") auto
  obtain cs y'' where r: "draw_lines (Suc li) ls q u t y' = (cs, y'')"
    by (cases "draw_lines (Suc li) ls q u t y'") auto
  have y': "40 * mm \<le> y'" using advance_above [of y] a by simp
  have b: "list_all above_threshold brk" using advance_threshold [of y] a by simp
  have "list_all above_threshold cs \<and> 40 * mm \<le> y''"
    using Cons.IH [OF y', of "Suc li"] r by simp
  then show ?case
    using b draw_line_threshold [OF Cons.prems, of li l q u t] by (simp add: a r)
qed

lemma draw_items_above:
  "40 * mm \<le> y \<Longrightarrow>
     list_all above_threshold (fst (draw_items its y s))
     \<and> 40 * mm \<le> fst (snd (draw_items its y s))"
proof (induction its arbitrary: y s)
  case Nil
  then show ?case by simp
next
  case (Cons a its)
  let ?q = "get_or 0 (qty a)" and ?u = "get_or 0 (unit_price a)"
  obtain cs y' where l: "draw_lines 0 (wrap (get_or [] (desc a))) ?q ?u (?q * ?u) y = (cs, y')"
    by (cases "draw_lines 0 (wrap (get_or [] (desc a))) ?q ?u (?q * ?u) y") auto
  obtain cs' y'' s'' where r: "draw_items its y' (s + ?q * ?u) = (cs', y'', s'')"
    by (cases "draw_items its y' (s + ?q * ?u)") auto
  have 1: "list_all above_threshold cs \<and> 40 * mm \<le> y'"
    using draw_lines_above [OF Cons.prems, of 0 "wrap (get_or [] (desc a))" ?q ?u "?q * ?u"] l
    by simp
  then have 2: "list_all above_threshold cs' \<and> 40 * mm \<le> y''"
    using Cons.IH [of y' "s + ?q * ?u"] r by simp
  show ?case using 1 2 by (simp add: l r Let_def)
qed

lemma pages_append: "pages (xs @ ys) = pages xs + pages ys"
  by (simp add: pages_def)

lemma pages_advance:
  "(pages (fst (advance y)) = 0) = (40 * mm \<le> y - 11)"
  by (auto simp: advance_eq pages_def)

lemma pages_draw_line: "pages (draw_line li l q u t y) = 0"
  by (simp add: draw_line_def pages_def)

lemma threshold_split:
  fixes m n :: nat
  shows "(c \<le> y - 11 * real (m + n)) =
           (c \<le> y - 11 * real m \<and> (n = 0 \<or> c \<le> y - 11 * real m - 11 * real n))"
proof (cases "n = 0")
  case True
  then show ?thesis by simp
next
  case False
  have "0 \<le> real n" by simp
  then show ?thesis using False by (auto simp: algebra_simps)
qed

lemma both_zero_iff:
  assumes "A = B" and "A \<Longrightarrow> C = D"
  shows "(A \<and> C) = (B \<and> D)"
  using assms by (cases A) simp_all

lemma draw_lines_pages:
  "(pages (fst (draw_lines li ls q u t y)) = 0) = (ls = [] \<or> 40 * mm \<le> y - 11 * real (length ls))"
proof (induction ls arbitrary: li y)
  case Nil
  show ?case by (simp add: pages_def)
next
  case (Cons l ls)
  obtain brk y' where a: "advance y = (brk, y')" by (cases "advance y") auto
  obtain cs y'' where r: "draw_lines (Suc li) ls q u t y' = (cs, y'')"
    by (cases "draw_lines (Suc li) ls q u t y'") auto
  have b: "(pages brk = 0) = (40 * mm \<le> y - 11)" using pages_advance [of y] a by simp
  have y': "pages brk = 0 \<Longrightarrow> y' = y - 11" using a b by (simp add: advance_eq split: if_splits)
  have ih: "pages brk = 0 \<Longrightarrow>
      (pages cs = 0) = (ls = [] \<or> 40 * mm \<le> y - 11 - 11 * real (length ls))"
    using Cons.IH [of "Suc li" y'] r y' by simp
  have p: "pages (fst (draw_lines li (l # ls) q u t y)) = pages brk + pages cs"
    by (simp add: a r pages_append pages_draw_line)
  have lhs: "(pages (fst (draw_lines li (l # ls) q u t y)) = 0) = (pages brk = 0 \<and> pages cs = 0)"
    by (simp only: p add_eq_0_iff_both_eq_0)
  have ne: "l # ls \<noteq> []" by simp
  have rhs: "(40 * mm \<le> y - 11 * real (length (l # ls))) =
      (40 * mm \<le> y - 11 \<and> (ls = [] \<or> 40 * mm \<le> y - 11 - 11 * real (length ls)))"
    using threshold_split [of "40 * mm" y 1 "length ls"] by simp
  have "(pages brk = 0 \<and> pages cs = 0) =
      (40 * mm \<le> y - 11 \<and> (ls = [] \<or> 40 * mm \<le> y - 11 - 11 * real (length ls)))"
    using b ih by (rule both_zero_iff)
  then show ?case by (simp only: lhs rhs ne simp_thms)
qed

lemma draw_lines_cursor:
  "pages (fst (draw_lines li ls q u t y)) = 0 \<Longrightarrow>
     snd (draw_lines li ls q u t y) = y - 11 * real (length ls)"
proof (induction ls arbitrary: li y)
  case Nil
  show ?case by simp
next
  case (Cons l ls)
  obtain brk y' where a: "advance y = (brk, y')" by (cases "advance y") auto
  obtain cs y'' where r: "draw_lines (Suc li) ls q u t y' = (cs, y'')"
    by (cases "draw_lines (Suc li) ls q u t y'") auto
  have p: "pages (fst (draw_lines li (l # ls) q u t y)) = pages brk + pages cs"
    by (simp add: a r pages_append pages_draw_line)
  then have z: "pages brk = 0" "pages cs = 0" using Cons.prems by simp_all
  have "y' = y - 11"
    using a z(1) pages_advance [of y] by (simp add: advance_eq split: if_splits)
  moreover have "y'' = y' - 11 * real (length ls)"
    using Cons.IH [of "Suc li" y'] r z(2) by simp
  ultimately show ?case by (simp add: a r algebra_simps)
qed

lemma draw_items_pages:
  "(pages (fst (draw_items its y s)) = 0) =
     (sum_list (map item_lines its) = 0
      \<or> 40 * mm \<le> y - 11 * real (sum_list (map item_lines its)))"
proof (induction its arbitrary: y s)
  case Nil
  show ?case by (simp add: pages_def)
next
  case (Cons a its)
  let ?q = "get_or 0 (qty a)" and ?u = "get_or 0 (unit_price a)"
  let ?w = "wrap (get_or [] (desc a))"
  let ?n = "sum_list (map item_lines its)"
  obtain cs y' where l: "draw_lines 0 ?w ?q ?u (?q * ?u) y = (cs, y')"
    by (cases "draw_lines 0 ?w ?q ?u (?q * ?u) y") auto
  obtain cs' y'' s'' where r: "draw_items its y' (s + ?q * ?u) = (cs', y'', s'')"
    by (cases "draw_items its y' (s + ?q * ?u)") auto
  have wl: "0 < length ?w" using wrap_not_Nil [of "get_or [] (desc a)"] by simp
  have il: "item_lines a = length ?w" by (simp add: item_lines_def)
  have c1: "(pages cs = 0) = (40 * mm \<le> y - 11 * real (length ?w))"
    using draw_lines_pages [of 0 ?w ?q ?u "?q * ?u" y] l wl by auto
  have c2: "pages cs = 0 \<Longrightarrow> y' = y - 11 * real (length ?w)"
    using draw_lines_cursor [of 0 ?w ?q ?u "?q * ?u" y] l by simp
  have ih: "pages cs = 0 \<Longrightarrow>
      (pages cs' = 0) = (?n = 0 \<or> 40 * mm \<le> y - 11 * real (length ?w) - 11 * real ?n)"
    using Cons.IH [of y' "s + ?q * ?u"] r c2 by simp
  have p: "pages (fst (draw_items (a # its) y s)) = pages cs + pages cs'"
    by (simp add: l r Let_def pages_append)
  have lhs: "(pages (fst (draw_items (a # its) y s)) = 0) = (pages cs = 0 \<and> pages cs' = 0)"
    by (simp only: p add_eq_0_iff_both_eq_0)
  have sum: "sum_list (map item_lines (a # its)) = length ?w + ?n" by (simp add: il)
  have ne: "length ?w + ?n \<noteq> 0" using wl by simp
  have rhs: "(40 * mm \<le> y - 11 * real (length ?w + ?n)) =
      (40 * mm \<le> y - 11 * real (length ?w)
       \<and> (?n = 0 \<or> 40 * mm \<le> y - 11 * real (length ?w) - 11 * real ?n))"
    by (rule threshold_split)
  have "(pages cs = 0 \<and> pages cs' = 0) =
      (40 * mm \<le> y - 11 * real (length ?w)
       \<and> (?n = 0 \<or> 40 * mm \<le> y - 11 * real (length ?w) - 11 * real ?n))"
    using c1 ih by (rule both_zero_iff)
  then show ?case by (simp only: lhs rhs sum ne simp_thms)
qed

lemma draw_items_cursor:
  "pages (fst (draw_items its y s)) = 0 \<Longrightarrow>
     fst (snd (draw_items its y s)) = y - 11 * real (sum_list (map item_lines its))"
proof (induction its arbitrary: y s)
  case Nil
  show ?case by simp
next
  case (Cons a its)
  let ?q = "get_or 0 (qty a)" and ?u = "get_or 0 (unit_price a)"
  let ?w = "wrap (get_or [] (desc a))"
  obtain cs y' where l: "draw_lines 0 ?w ?q ?u (?q * ?u) y = (cs, y')"
    by (cases "draw_lines 0 ?w ?q ?u (?q * ?u) y") auto
  obtain cs' y'' s'' where r: "draw_items its y' (s + ?q * ?u) = (cs', y'', s'')"
    by (cases "draw_items its y' (s + ?q * ?u)") auto
  have p: "pages (fst (draw_items (a # its) y s)) = pages cs + pages cs'"
    by (simp add: l r Let_def pages_append)
  then have z: "pages cs = 0" "pages cs' = 0" using Cons.prems by simp_all
  have il: "item_lines a = length ?w" by (simp add: item_lines_def)
  have 1: "y' = y - 11 * real (length ?w)"
    using draw_lines_cursor [of 0 ?w ?q ?u "?q * ?u" y] l z(1) by simp
  have 2: "y'' = y' - 11 * real (sum_list (map item_lines its))"
    using Cons.IH [of y' "s + ?q * ?u"] r z(2) by simp
  have "fst (snd (draw_items (a # its) y s)) = y''" by (simp add: l r Let_def)
  also have "\<dots> = y - 11 * real (length ?w) - 11 * real (sum_list (map item_lines its))"
    using 1 2 by simp
  also have "\<dots> = y - 11 * real (sum_list (map item_lines (a # its)))"
    by (simp add: il algebra_simps)
  finally show ?case .
qed

lemma pages_draw_address: "pages (draw_address x y ls) = 0"
  by (induction ls arbitrary: y) (simp_all add: pages_def)

lemma pages_draw_note_lines: "pages (draw_note_lines y ls) = 0"
  by (induction ls arbitrary: y) (simp_all add: pages_def)

lemma pages_draw_logo: "pages (fst (draw_logo fs lp)) = 0"
  by (simp add: draw_logo_def pages_def split: option.splits path_content.splits)

lemma pages_draw_company: "pages (draw_company ci) = 0"
  using pages_draw_address by (simp add: draw_company_def Let_def pages_def)

lemma pages_draw_meta: "pages (draw_meta m) = 0"
  by (simp add: draw_meta_def Let_def pages_def)

lemma pages_draw_table_header: "pages draw_table_header = 0"
  by (simp add: draw_table_header_def pages_def)

lemma pages_draw_totals: "pages (draw_totals y s D) = 0"
  by (simp add: draw_totals_def Let_def pages_def)

lemma pages_draw_notes: "pages (draw_notes y ci) = 0"
  using pages_draw_note_lines by (simp add: draw_notes_def Let_def pages_def)

lemma pages_Cons: "pages (c # cs) = (if c = ShowPage then 1 else 0) + pages cs"
  by (simp add: pages_def)

lemma pages_Nil: "pages [] = 0"
  by (simp add: pages_def)

lemma pages_generate_pdf:
  "pages (fst (generate_pdf fs out ci lp its D meta)) = Suc (pages (fst (item_rows its)))"
proof -
  obtain rows y s where r: "item_rows its = (rows, y, s)" by (cases "item_rows its") auto
  obtain logo pr where l: "draw_logo fs lp = (logo, pr)" by (cases "draw_logo fs lp") auto
  have "pages logo = 0" using pages_draw_logo [of fs lp] l by simp
  then show ?thesis
    by (simp add: generate_pdf_def r l pages_append pages_Cons pages_Nil pages_draw_company
        pages_draw_meta pages_draw_table_header pages_draw_totals pages_draw_notes)
qed

lemma item_rows_pages:
  "(pages (fst (item_rows its)) = 0) =
     (40 * mm \<le> table_top - 10 - 11 * real (sum_list (map item_lines its)))"
proof (cases "sum_list (map item_lines its) = 0")
  case True
  have "real (sum_list (map item_lines its)) = 0" using True by (simp only: of_nat_0)
  then have "40 * mm \<le> table_top - 10 - 11 * real (sum_list (map item_lines its))"
    using start_above by (simp only: mult_zero_right diff_zero)
  then show ?thesis
    using True draw_items_pages [of its "table_top - 10" 0] by (simp only: item_rows_def simp_thms)
next
  case False
  then show ?thesis
    using draw_items_pages [of its "table_top - 10" 0] by (simp only: item_rows_def simp_thms)
qed

lemma above_thresholdD:
  "above_threshold c \<Longrightarrow> c = DrawString x y t \<or> c = DrawRightString x y t \<Longrightarrow> 40 * mm \<le> y"
  by (auto simp: above_threshold_def)

text \<open>
  Claim C3. The document has at least two pages exactly when the item lines, 11 points each,
  exceed the height between the first row and the 40 mm threshold. Every text of an item
  row, continuation lines included, is drawn at or above 40 mm, on every page, and the
  cursor left by the rows is at or above 40 mm as well. A step of the cursor that falls
  below 40 mm closes the page and puts the cursor at the page height less 40 mm.
\<close>

theorem pagination:
  "(2 \<le> pages (fst (generate_pdf fs out ci lp its D meta))) =
     (table_top - 10 - 40 * mm < 11 * real (sum_list (map item_lines its)))
   \<and> (\<forall>c \<in> set (fst (item_rows its)). \<forall>x y t.
         c = DrawString x y t \<or> c = DrawRightString x y t \<longrightarrow> 40 * mm \<le> y)
   \<and> 40 * mm \<le> fst (snd (item_rows its))
   \<and> advance y0 =
       (if y0 - 11 < 40 * mm then ([ShowPage], PAGE_HEIGHT - 40 * mm) else ([], y0 - 11))"
proof -
  have "(2 \<le> pages (fst (generate_pdf fs out ci lp its D meta))) =
          (pages (fst (item_rows its)) \<noteq> 0)"
    by (simp add: pages_generate_pdf Suc_le_eq)
  also have "\<dots> = (\<not> 40 * mm \<le> table_top - 10 - 11 * real (sum_list (map item_lines its)))"
    by (simp only: item_rows_pages)
  also have "\<dots> = (table_top - 10 - 40 * mm < 11 * real (sum_list (map item_lines its)))"
    by (auto simp: algebra_simps)
  finally have a: "(2 \<le> pages (fst (generate_pdf fs out ci lp its D meta))) =
     (table_top - 10 - 40 * mm < 11 * real (sum_list (map item_lines its)))" .
  have inv: "list_all above_threshold (fst (item_rows its))
             \<and> 40 * mm \<le> fst (snd (item_rows its))"
    using draw_items_above [OF start_above, of its 0] by (simp add: item_rows_def)
  then have b: "\<forall>c \<in> set (fst (item_rows its)). \<forall>x y t.
         c = DrawString x y t \<or> c = DrawRightString x y t \<longrightarrow> 40 * mm \<le> y"
    using above_thresholdD by (simp add: list_all_iff) blast
  from a b inv advance_eq [of y0] show ?thesis by blast
qed

lemma item_lines_x:
  "item_lines \<lparr>desc = Some ''x'', qty = Some 1, unit_price = Some 1\<rparr> = 1"
  by (simp add: item_lines_def wrap_length max_chars_def)

text \<open>
  With one-line items, 46 rows need a second page and 45 rows do not.
\<close>

theorem pagination_witness:
  "2 \<le> pages (fst (generate_pdf (\<lambda>p. None) ''invoice.pdf''
          \<lparr>name = Some ''Your Company'', address_lines = Some [], notes_text = Some []\<rparr>
          None
          (replicate 46 \<lparr>desc = Some ''x'', qty = Some 1, unit_price = Some 1\<rparr>) 0
          \<lparr>date = Some ''2026-01-01'', invoice_no = Some ''1''\<rparr>))
   \<and> \<not> 2 \<le> pages (fst (generate_pdf (\<lambda>p. None) ''invoice.pdf''
          \<lparr>name = Some ''Your Company'', address_lines = Some [], notes_text = Some []\<rparr>
          None
          (replicate 45 \<lparr>desc = Some ''x'', qty = Some 1, unit_price = Some 1\<rparr>) 0
          \<lparr>date = Some ''2026-01-01'', invoice_no = Some ''1''\<rparr>))"
proof -
  let ?it = "\<lparr>desc = Some ''x'', qty = Some (1::real), unit_price = Some (1::real)\<rparr>"
  have n: "sum_list (map item_lines (replicate 46 ?it)) = 46"
    "sum_list (map item_lines (replicate 45 ?it)) = 45"
    by (simp_all add: item_lines_x sum_list_replicate)
  have h: "table_top - 10 - 40 * mm < 11 * real (46::nat)"
    "\<not> table_top - 10 - 40 * mm < 11 * real (45::nat)"
    by (simp_all add: table_top_def top_def PAGE_HEIGHT_def mm_def)
  show ?thesis
    using pagination [THEN conjunct1, of "\<lambda>p. None" "''invoice.pdf''"
        "\<lparr>name = Some ''Your Company'', address_lines = Some [], notes_text = Some []\<rparr>"
        None "replicate 46 ?it" 0 "\<lparr>date = Some ''2026-01-01'', invoice_no = Some ''1''\<rparr>"]
      pagination [THEN conjunct1, of "\<lambda>p. None" "''invoice.pdf''"
        "\<lparr>name = Some ''Your Company'', address_lines = Some [], notes_text = Some []\<rparr>"
        None "replicate 45 ?it" 0 "\<lparr>date = Some ''2026-01-01'', invoice_no = Some ''1''\<rparr>"]
      h by (simp only: n simp_thms)
qed

subsection \<open>Totals and notes below the threshold\<close>

lemma split_nl_seven:
  "split_nl [CHR ''a'', CHR 0x0A, CHR ''b'', CHR 0x0A, CHR ''c'', CHR 0x0A, CHR ''d'', CHR 0x0A,
             CHR ''e'', CHR 0x0A, CHR ''f'', CHR 0x0A, CHR ''g'']
   = [''a'', ''b'', ''c'', ''d'', ''e'', ''f'', ''g'']"
  by simp

text \<open>
  Claim C9. The pages of a document are one more than the page breaks of its item rows: the
  totals block and the notes block never close a page. With 45 one-line items and notes of
  seven lines the document has a single page, its \<open>Total Due\<close> line lies below
  40 mm, and the last line of the notes lies below the bottom edge of the page.
\<close>

theorem totals_and_notes_unpaginated:
  "pages (fst (generate_pdf fs out ci lp its D meta)) = Suc (pages (fst (item_rows its)))
   \<and> pages (draw_totals y s D) = 0
   \<and> pages (draw_notes y ci) = 0
   \<and> (let cs = fst (generate_pdf (\<lambda>p. None) ''invoice.pdf''
                 \<lparr>name = Some ''Your Company'', address_lines = Some [],
                  notes_text = Some [CHR ''a'', CHR 0x0A, CHR ''b'', CHR 0x0A, CHR ''c'',
                    CHR 0x0A, CHR ''d'', CHR 0x0A, CHR ''e'', CHR 0x0A, CHR ''f'', CHR 0x0A,
                    CHR ''g'']\<rparr>
                 None
                 (replicate 45 \<lparr>desc = Some ''x'', qty = Some 1, unit_price = Some 1\<rparr>) 0
                 \<lparr>date = Some ''2026-01-01'', invoice_no = Some ''1''\<rparr>)
       in pages cs = 1
          \<and> DrawRightString (left_margin + 150 * mm) (222 * mm - 537) [Lit ''Total Due:'']
              \<in> set cs
          \<and> 222 * mm - 537 < 40 * mm
          \<and> DrawString left_margin (222 * mm - 634) [Lit ''g''] \<in> set cs
          \<and> 222 * mm - 634 < 0)"
proof -
  let ?it = "\<lparr>desc = Some ''x'', qty = Some (1::real), unit_price = Some (1::real)\<rparr>"
  let ?its = "replicate 45 ?it"
  let ?ci = "\<lparr>name = Some ''Your Company'', address_lines = Some [],
                  notes_text = Some [CHR ''a'', CHR 0x0A, CHR ''b'', CHR 0x0A, CHR ''c'',
                    CHR 0x0A, CHR ''d'', CHR 0x0A, CHR ''e'', CHR 0x0A, CHR ''f'', CHR 0x0A,
                    CHR ''g'']\<rparr>"
  let ?meta = "\<lparr>date = Some ''2026-01-01'', invoice_no = Some ''1''\<rparr>"
  let ?cs = "fst (generate_pdf (\<lambda>p. None) ''invoice.pdf'' ?ci None ?its 0 ?meta)"
  have n: "sum_list (map item_lines ?its) = 45"
    by (simp add: item_lines_x sum_list_replicate)
  have fits: "40 * mm \<le> table_top - 10 - 11 * real (45::nat)"
    by (simp add: table_top_def top_def PAGE_HEIGHT_def mm_def)
  have p0: "pages (fst (item_rows ?its)) = 0"
    using fits by (simp only: item_rows_pages n)
  then have "fst (snd (item_rows ?its)) = table_top - 10 - 11 * real (45::nat)"
    using draw_items_cursor [of ?its "table_top - 10" 0] by (simp only: item_rows_def n)
  then have cur: "fst (snd (item_rows ?its)) = 222 * mm - 505"
    by (simp add: table_top_def top_def PAGE_HEIGHT_def)
  obtain rows yy ss where r: "item_rows ?its = (rows, yy, ss)"
    by (cases "item_rows ?its") auto
  have yy: "yy = 222 * mm - 505" using cur r by simp
  have cs: "?cs = draw_company ?ci @ draw_meta ?meta @ draw_table_header
                 @ [SetFont ''Helvetica'' 9] @ rows @ draw_totals (yy - 8) ss 0
                 @ draw_notes (yy - 8 - 12 - 12 - 25) ?ci @ [ShowPage, Save ''invoice.pdf'']"
    by (simp add: generate_pdf_def r draw_logo_def)
  have t: "DrawRightString (left_margin + 150 * mm) (222 * mm - 537) [Lit ''Total Due:'']
             \<in> set (draw_totals (yy - 8) ss 0)"
    by (simp add: draw_totals_def yy)
  have g: "DrawString left_margin (222 * mm - 634) [Lit ''g'']
             \<in> set (draw_notes (yy - 8 - 12 - 12 - 25) ?ci)"
    by (simp add: draw_notes_def yy split_nl_seven del: split_nl.simps)
  have m: "DrawRightString (left_margin + 150 * mm) (222 * mm - 537) [Lit ''Total Due:'']
             \<in> set ?cs"
    "DrawString left_margin (222 * mm - 634) [Lit ''g''] \<in> set ?cs"
    using t g by (simp_all only: cs set_append Un_iff simp_thms)
  have pg: "pages ?cs = 1"
    using p0 by (simp only: pages_generate_pdf One_nat_def)
  have lt: "222 * mm - 537 < 40 * mm" "222 * mm - 634 < 0"
    by (simp_all add: mm_def)
  have gen: "pages (fst (generate_pdf fs out ci lp its D meta)) = Suc (pages (fst (item_rows its)))"
    "pages (draw_totals y s D) = 0" "pages (draw_notes y ci) = 0"
    by (rule pages_generate_pdf, rule pages_draw_totals, rule pages_draw_notes)
  from gen pg m lt show ?thesis unfolding Let_def by blast
qed

end
